theory Spec2Isabelle
  imports Main "HOL-Library.AList"
begin

unbundle bit_operations_syntax

section \<open>Python values and exceptions\<close>

text \<open>
  The program is Python 2.7: a \<open>str\<close> is a byte string, modelled as \<open>string\<close>
  (a list of 8-bit \<open>char\<close>); integers are unbounded, modelled as \<open>int\<close>.
  Every exception the code can raise is a value of \<open>error\<close>. \<open>WTFError\<close>,
  \<open>ScummFileError\<close> and \<open>DescummError\<close> are the classes the source declares
  (with their messages); the others are the interpreter's own exceptions, raised by
  an index out of range, by \<open>int\<close> and \<open>chr\<close>, by \<open>struct.unpack\<close>, by an
  attribute that is not there, by \<open>assert\<close> and by \<open>seek\<close>.
\<close>

datatype error =
    ScummFileError string
  | WTFError string
  | DescummError int string
  | IOError
  | IndexError
  | ValueError
  | StructError
  | AttributeError
  | AssertionError

definition ord :: "char \<Rightarrow> int" where
  "ord c = of_char c"

definition chr :: "int \<Rightarrow> error + char" where
  "chr n = (if 0 \<le> n \<and> n < 256 then Inr (char_of n) else Inl ValueError)"

section \<open>The underlying file and the decrypting stream\<close>

text \<open>
  A file opened with mode \<open>rb\<close>: its bytes and the current position. \<open>read(n)\<close>
  returns at most \<open>n\<close> bytes (fewer at the end of the file, none beyond it) and
  every byte to the end when \<open>n\<close> is negative; \<open>seek\<close> to a negative position
  is an \<open>IOError\<close>, a position beyond the end is allowed.
\<close>

record File =
  content :: string
  position :: nat

datatype whence = SEEK_SET | SEEK_CUR

definition file_read :: "File \<Rightarrow> int \<Rightarrow> string \<times> File" where
  "file_read f n =
     (let avail = drop (position f) (content f);
          data = (if n < 0 then avail else take (nat n) avail)
      in (data, f\<lparr>position := position f + length data\<rparr>))"

definition file_seek :: "File \<Rightarrow> int \<Rightarrow> whence \<Rightarrow> error + File" where
  "file_seek f offset w =
     (let target = (case w of SEEK_SET \<Rightarrow> offset | SEEK_CUR \<Rightarrow> int (position f) + offset)
      in if target < 0 then Inl IOError else Inr (f\<lparr>position := nat target\<rparr>))"

definition file_tell :: "File \<Rightarrow> nat" where
  "file_tell f = position f"

text \<open>
  \<open>"".join(chr(ord(x) ^ self._xor) for x in data)\<close>: every byte is XORed with the
  key; \<open>chr\<close> raises when the result is not a byte.
\<close>

fun xor_join :: "int \<Rightarrow> string \<Rightarrow> error + string" where
  "xor_join k [] = Inr []"
| "xor_join k (x # data) =
     (case chr (ord x XOR k) of
        Inl e \<Rightarrow> Inl e
      | Inr c \<Rightarrow> (case xor_join k data of Inl e \<Rightarrow> Inl e | Inr cs \<Rightarrow> Inr (c # cs)))"

text \<open>The transform of \<open>DecryptingStream.read\<close> on the bytes the file returned.\<close>

definition decrypt :: "int \<Rightarrow> string \<Rightarrow> error + string" where
  "decrypt k data = (if k \<noteq> 0 then xor_join k data else Inr data)"

record DecryptingStream =
  stream :: File
  xor_key :: int

definition ds_read :: "DecryptingStream \<Rightarrow> int \<Rightarrow> error + (string \<times> DecryptingStream)" where
  "ds_read s n =
     (case file_read (stream s) n of
        (data, f) \<Rightarrow>
          (case decrypt (xor_key s) data of
             Inl e \<Rightarrow> Inl e
           | Inr d \<Rightarrow> Inr (d, s\<lparr>stream := f\<rparr>)))"

definition ds_seek :: "DecryptingStream \<Rightarrow> int \<Rightarrow> whence \<Rightarrow> error + DecryptingStream" where
  "ds_seek s offset w =
     (case file_seek (stream s) offset w of
        Inl e \<Rightarrow> Inl e
      | Inr f \<Rightarrow> Inr (s\<lparr>stream := f\<rparr>))"

definition ds_tell :: "DecryptingStream \<Rightarrow> nat" where
  "ds_tell s = file_tell (stream s)"

section \<open>Library functions the walker uses\<close>

text \<open>
  \<open>struct.unpack('>I', s)[0]\<close>: four bytes as a big-endian unsigned integer;
  any other length raises \<open>struct.error\<close>.
\<close>

definition unpack_I :: "string \<Rightarrow> error + int" where
  "unpack_I s =
     (case s of
        [a, b, c, d] \<Rightarrow> Inr (((ord a * 256 + ord b) * 256 + ord c) * 256 + ord d)
      | _ \<Rightarrow> Inl StructError)"

text \<open>
  The comparison \<open><=\<close> of two \<open>str\<close> values: bytewise lexicographic, a proper
  prefix being smaller.
\<close>

fun str_le :: "string \<Rightarrow> string \<Rightarrow> bool" where
  "str_le [] ys = True"
| "str_le (x # xs) [] = False"
| "str_le (x # xs) (y # ys) =
     (if ord x < ord y then True else if ord y < ord x then False else str_le xs ys)"

text \<open>
  The formats \<open>%X\<close> and \<open>%08X\<close> of a non-negative integer: upper-case
  hexadecimal, the second padded with zeros to at least eight digits.
\<close>

definition hex_digit :: "nat \<Rightarrow> char" where
  "hex_digit d = ''0123456789ABCDEF'' ! d"

fun format_X :: "nat \<Rightarrow> string" where
  "format_X n = (if n < 16 then [hex_digit n] else format_X (n div 16) @ [hex_digit (n mod 16)])"

declare format_X.simps [simp del]

definition format_08X :: "nat \<Rightarrow> string" where
  "format_08X n = (let s = format_X n in replicate (8 - length s) (CHR ''0'') @ s)"

text \<open>
  \<open>int(s, 16)\<close> on a \<open>str\<close>, as CPython 2.7 parses it: white space, an optional
  sign, white space, an optional \<open>0x\<close> or \<open>0X\<close> when a digit follows it, at
  least one hexadecimal digit, white space, and nothing else; \<open>ValueError\<close>
  otherwise.
\<close>

definition isspace :: "char \<Rightarrow> bool" where
  "isspace c = (c \<in> set [CHR 0x20, CHR 0x09, CHR 0x0A, CHR 0x0B, CHR 0x0C, CHR 0x0D])"

definition hex_value :: "char \<Rightarrow> nat option" where
  "hex_value c =
     (let n = of_char c :: nat in
      if 48 \<le> n \<and> n \<le> 57 then Some (n - 48)
      else if 97 \<le> n \<and> n \<le> 102 then Some (n - 87)
      else if 65 \<le> n \<and> n \<le> 70 then Some (n - 55)
      else None)"

definition is_hex :: "char \<Rightarrow> bool" where
  "is_hex c = (hex_value c \<noteq> None)"

fun hex_number :: "nat \<Rightarrow> string \<Rightarrow> nat" where
  "hex_number acc [] = acc"
| "hex_number acc (c # cs) =
     hex_number (acc * 16 + (case hex_value c of Some v \<Rightarrow> v | None \<Rightarrow> 0)) cs"

definition py_int16 :: "string \<Rightarrow> error + int" where
  "py_int16 s =
     (let s1 = dropWhile isspace s;
          neg = (s1 \<noteq> [] \<and> hd s1 = CHR ''-'');
          s2 = (if s1 \<noteq> [] \<and> (hd s1 = CHR ''+'' \<or> hd s1 = CHR ''-'') then tl s1 else s1);
          s3 = dropWhile isspace s2;
          s4 = (case s3 of
                  a # b # c # r \<Rightarrow>
                    if a = CHR ''0'' \<and> (b = CHR ''x'' \<or> b = CHR ''X'') \<and> is_hex c
                    then c # r else s3
                | _ \<Rightarrow> s3);
          digits = takeWhile is_hex s4;
          rest = dropWhile isspace (dropWhile is_hex s4)
      in if digits = [] \<or> rest \<noteq> [] then Inl ValueError
         else Inr (if neg then - int (hex_number 0 digits) else int (hex_number 0 digits)))"

section \<open>The string unescaper\<close>

text \<open>
  \<open>unescape\<close>: the loop over \<open>pos\<close>, with \<open>out\<close> the bytes written so far.
  \<open>string[pos]\<close> raises \<open>IndexError\<close> beyond the end; the slice
  \<open>string[pos+1:pos+3]\<close> never raises and may be shorter than two characters.
\<close>

definition backslash :: char where
  "backslash = CHR 0x5C"

function unescape_loop :: "string \<Rightarrow> nat \<Rightarrow> string \<Rightarrow> error + string" where
  "unescape_loop string pos out =
     (if pos < length string then
        (let ch = string ! pos in
         if ch \<noteq> backslash then unescape_loop string (pos + 1) (out @ [ch])
         else
           (let pos1 = pos + 1 in
            if \<not> pos1 < length string then Inl IndexError
            else
              (let ch1 = string ! pos1 in
               if ch1 = CHR ''x'' then
                 (case py_int16 (take 2 (drop (pos1 + 1) string)) of
                    Inl e \<Rightarrow> Inl e
                  | Inr v \<Rightarrow>
                      (case chr v of
                         Inl e \<Rightarrow> Inl e
                       | Inr c \<Rightarrow> unescape_loop string (pos1 + 3) (out @ [c])))
               else if ch1 = backslash then unescape_loop string (pos1 + 1) (out @ [backslash])
               else Inl (WTFError (''Unexpected escape code: '' @ [ch1])))))
      else Inr out)"
  by pat_completeness auto
termination
  by (relation "measure (\<lambda>(string, pos, out). length string - pos)") auto

declare unescape_loop.simps [simp del]

definition unescape :: "string \<Rightarrow> error + string" where
  "unescape string = unescape_loop string 0 []"

section \<open>Scanning the disassembly\<close>

text \<open>
  \<open>TEXT_RE.findall(disasm)\<close> for the pattern \<open>Text\("([^"]+)"\)\<close>: the matches
  from left to right, not overlapping, each giving its group. At a position where
  \<open>Text("\<close> stands, the group is the longest run of characters other than the
  double quote; it must not be empty and must be followed by \<open>")\<close>, and no shorter
  run can match, since it is followed by a character of the run.
\<close>

definition dquote :: char where
  "dquote = CHR 0x22"

definition newline :: char where
  "newline = CHR 0x0A"

function TEXT_RE_findall :: "string \<Rightarrow> string list" where
  "TEXT_RE_findall s =
     (if s = [] then []
      else if take 6 s = ''Text('' @ [dquote] then
        (let rest = drop 6 s;
             grp = takeWhile (\<lambda>c. c \<noteq> dquote) rest;
             after = dropWhile (\<lambda>c. c \<noteq> dquote) rest
         in if grp \<noteq> [] \<and> take 2 after = [dquote, CHR '')'']
            then grp # TEXT_RE_findall (drop 2 after)
            else TEXT_RE_findall (tl s))
      else TEXT_RE_findall (tl s))"
  by pat_completeness auto
termination
proof (relation "measure length", goal_cases)
  case 1
  show ?case by simp
next
  case (2 s rest grp after)
  have "length (dropWhile (\<lambda>c. c \<noteq> dquote) (drop 6 s)) \<le> length (drop 6 s)"
    by (rule length_dropWhile_le)
  with 2 show ?case by (cases s) auto
next
  case (3 s rest grp after)
  then show ?case by (cases s) auto
next
  case (4 s)
  then show ?case by (cases s) auto
qed

declare TEXT_RE_findall.simps [simp del]

section \<open>The disassembler bridge\<close>

text \<open>
  The external program \<open>descumm\<close> is a parameter: from the bytes of the temporary
  file to its return code, standard output and standard error.
\<close>

type_synonym descumm = "string \<Rightarrow> int \<times> string \<times> string"

definition dissassembleScript ::
  "descumm \<Rightarrow> DecryptingStream \<Rightarrow> int \<Rightarrow> error + (string \<times> DecryptingStream)" where
  "dissassembleScript descumm s sz =
     (case ds_read s sz of
        Inl e \<Rightarrow> Inl e
      | Inr (bytes, s') \<Rightarrow>
          (case descumm bytes of
             (returncode, out, err) \<Rightarrow>
               if returncode \<noteq> 0 then Inl (DescummError returncode err)
               else Inr (out, s')))"

fun handleScript_loop :: "string list \<Rightarrow> string \<Rightarrow> error + string" where
  "handleScript_loop [] out = Inr out"
| "handleScript_loop (m # ms) out =
     (case unescape m of
        Inl e \<Rightarrow> Inl e
      | Inr u \<Rightarrow>
          handleScript_loop ms (out @ ''[String]'' @ [newline] @ u @ [newline] @ [newline]))"

definition handleScript ::
  "descumm \<Rightarrow> DecryptingStream \<Rightarrow> int \<Rightarrow> error + (string \<times> DecryptingStream)" where
  "handleScript descumm s sz =
     (case dissassembleScript descumm s sz of
        Inl e \<Rightarrow> Inl e
      | Inr (disasm, s') \<Rightarrow>
          (case handleScript_loop (TEXT_RE_findall disasm) [] of
             Inl e \<Rightarrow> Inl e
           | Inr out \<Rightarrow> Inr (out, s')))"

section \<open>Block types\<close>

text \<open>
  \<open>isValidBlockType\<close>: the assertion on the length, then the loop over the
  characters. The test inside the loop compares the whole of \<open>block_type\<close> with
  \<open>'A'\<close> and \<open>'Z'\<close>, as the source writes it; the loop variable is not used.
\<close>

fun isValidBlockType_loop :: "string \<Rightarrow> string \<Rightarrow> bool" where
  "isValidBlockType_loop block_type [] = True"
| "isValidBlockType_loop block_type (ch # rest) =
     (if \<not> (str_le ''A'' block_type \<and> str_le block_type ''Z'') then False
      else isValidBlockType_loop block_type rest)"

definition isValidBlockType :: "string \<Rightarrow> error + bool" where
  "isValidBlockType block_type =
     (if length block_type \<noteq> 4 then Inl AssertionError
      else Inr (isValidBlockType_loop block_type block_type))"

section \<open>Game objects and the processor\<close>

text \<open>
  \<open>GameObj\<close> declares the slots \<open>name\<close> and \<open>scripts\<close> and has no
  constructor: a slot holds nothing (\<open>None\<close> here) until it is assigned, and
  reading it then raises \<open>AttributeError\<close>.

  The processor holds the stream, the dictionary from header offsets to objects and
  the current object. The dictionary and \<open>_current_obj\<close> refer to the same
  objects, so the objects live in a store (\<open>heap\<close>, an object's address being its
  index) and both hold addresses. \<open>obj_dict\<close> holds the entries of the
  dictionary in the order in which their keys were first assigned; the order in
  which \<open>items()\<close> lists them is computed from it by \<open>dict_items\<close> below.
  What \<open>print\<close> writes is appended to \<open>stdout\<close>.
\<close>

record GameObj =
  name :: "string option"
  scripts :: "string option"

record Processor =
  infile :: DecryptingStream
  heap :: "GameObj list"
  obj_dict :: "(nat \<times> nat) list"
  current_obj :: "nat option"
  stdout :: string

text \<open>
  \<open>_readASCIIZ\<close>: the loop \<open>while True\<close> has no bound, so the function is
  partial; \<open>None\<close> is the loop that never returns.
\<close>

partial_function (option) readASCIIZ_loop ::
  "DecryptingStream \<Rightarrow> string \<Rightarrow> (error + string \<times> DecryptingStream) option" where
  "readASCIIZ_loop s out =
     (case ds_read s 1 of
        Inl e \<Rightarrow> Some (Inl e)
      | Inr (ch, s') \<Rightarrow>
          if ch = [CHR 0x00] then Some (Inr (out, s'))
          else readASCIIZ_loop s' (out @ ch))"

declare readASCIIZ_loop.simps [code]

definition readASCIIZ :: "DecryptingStream \<Rightarrow> (error + string \<times> DecryptingStream) option" where
  "readASCIIZ s = readASCIIZ_loop s []"

text \<open>
  The walker. \<open>_processBlock\<close> and \<open>_processSubBlocks\<close> call each other and the
  loop of the latter need not end, so every call spends one unit of fuel; \<open>None\<close>
  is a run that has not returned within the fuel (or, in the name block, at all).
\<close>

fun processBlock :: "descumm \<Rightarrow> nat \<Rightarrow> Processor \<Rightarrow> (error + Processor) option"
  and processSubBlocks :: "descumm \<Rightarrow> nat \<Rightarrow> int \<Rightarrow> Processor \<Rightarrow> (error + Processor) option"
  and processSubBlocks_while ::
    "descumm \<Rightarrow> nat \<Rightarrow> int \<Rightarrow> Processor \<Rightarrow> (error + Processor) option"
where
  "processBlock descumm 0 p = None"
| "processBlock descumm (Suc fuel) p =
     (let hdr_offset = ds_tell (infile p) in
      case ds_read (infile p) 4 of
        Inl e \<Rightarrow> Some (Inl e)
      | Inr (block_type, s1) \<Rightarrow>
     (case ds_read s1 4 of
        Inl e \<Rightarrow> Some (Inl e)
      | Inr (raw, s2) \<Rightarrow>
     (case unpack_I raw of
        Inl e \<Rightarrow> Some (Inl e)
      | Inr raw_size \<Rightarrow>
     (let hdr_size = 8;
          sz = raw_size - hdr_size
      in
      if block_type \<in> set [''LECF'', ''LFLF'', ''ROOM''] then
        processSubBlocks descumm fuel sz (p\<lparr>infile := s2\<rparr>)
      else if block_type \<in> set [''SCRP'', ''LSCR'', ''ENCD'', ''EXCD'', ''VERB''] then
        (case ds_seek s2 (int hdr_offset) SEEK_SET of
           Inl e \<Rightarrow> Some (Inl e)
         | Inr s3 \<Rightarrow>
        (case handleScript descumm s3 raw_size of
           Inl e \<Rightarrow> Some (Inl e)
         | Inr (result, s4) \<Rightarrow>
             if block_type = ''VERB'' then
               (case current_obj p of
                  None \<Rightarrow> Some (Inl AttributeError)
                | Some a \<Rightarrow>
                    Some (Inr (p\<lparr>infile := s4,
                                 heap := (heap p)[a := (heap p ! a)\<lparr>scripts := Some result\<rparr>]\<rparr>)))
             else
               Some (Inr (p\<lparr>infile := s4,
                            stdout := stdout p @ ''***** '' @ block_type @ '' SCRIPT AT: ''
                              @ format_08X hdr_offset @ '' *****'' @ [newline]
                              @ result @ [newline]\<rparr>))))
      else if block_type = ''OBCD'' then
        (let a = length (heap p) in
         processSubBlocks descumm fuel sz
           (p\<lparr>infile := s2,
              heap := heap p @ [\<lparr>name = None, scripts = None\<rparr>],
              current_obj := Some a,
              obj_dict := AList.update hdr_offset a (obj_dict p)\<rparr>))
      else if block_type = ''OBNA'' then
        (case readASCIIZ s2 of
           None \<Rightarrow> None
         | Some (Inl e) \<Rightarrow> Some (Inl e)
         | Some (Inr (nm, s3)) \<Rightarrow>
             (case current_obj p of
                None \<Rightarrow> Some (Inl AttributeError)
              | Some a \<Rightarrow>
                  Some (Inr (p\<lparr>infile := s3,
                               heap := (heap p)[a := (heap p ! a)\<lparr>name := Some nm\<rparr>]\<rparr>))))
      else
        (case isValidBlockType block_type of
           Inl e \<Rightarrow> Some (Inl e)
         | Inr valid \<Rightarrow>
             if \<not> valid then
               Some (Inl (WTFError (''Invalid block type at offset '' @ format_X hdr_offset)))
             else
               (case ds_seek s2 sz SEEK_CUR of
                  Inl e \<Rightarrow> Some (Inl e)
                | Inr s3 \<Rightarrow> Some (Inr (p\<lparr>infile := s3\<rparr>))))))))"
| "processSubBlocks descumm 0 sz p = None"
| "processSubBlocks descumm (Suc fuel) sz p =
     (let end_pos = int (ds_tell (infile p)) + sz
      in processSubBlocks_while descumm fuel end_pos p)"
| "processSubBlocks_while descumm 0 end_pos p = None"
| "processSubBlocks_while descumm (Suc fuel) end_pos p =
     (if int (ds_tell (infile p)) < end_pos then
        (case processBlock descumm fuel p of
           None \<Rightarrow> None
         | Some (Inl e) \<Rightarrow> Some (Inl e)
         | Some (Inr p') \<Rightarrow> processSubBlocks_while descumm fuel end_pos p')
      else if end_pos < int (ds_tell (infile p)) then
        Some (Inl (WTFError ''Overshot the end of a block while processing sub-blocks!''))
      else Some (Inr p))"




section \<open>The order of a dictionary\<close>

text \<open>
  \<open>self._obj_dict.items()\<close> lists the entries in the order of the slots of
  CPython 2.7's hash table, not in the order of insertion. The keys are file
  offsets, whose hash is the offset itself (on a 64-bit build, for offsets below
  \<open>2^63\<close>), and no key
  is ever deleted, so the table is determined by the keys in the order in which
  they were first assigned: \<open>dict_items\<close> replays those insertions.

  The table starts with 8 slots. A key goes to the slot \<open>hash & mask\<close>, and on a
  collision to \<open>i = (i << 2) + i + perturb + 1\<close>, \<open>perturb\<close> starting at the hash
  and shifted right by 5 after each probe (the index is kept reduced modulo the
  size, a power of two, which gives the same slots). When a new key makes the table
  two thirds full, it is rebuilt with the first power-of-two size above four times
  the number of keys (twice, beyond 50000 keys), the entries being inserted again
  in the order of the old slots. The probing loops are partial functions: \<open>None\<close>
  is a loop that does not end.
\<close>

type_synonym dict_table = "(nat \<times> nat) option list"

partial_function (option) lookdict_loop ::
  "dict_table \<Rightarrow> nat \<Rightarrow> nat \<Rightarrow> nat \<Rightarrow> nat option" where
  "lookdict_loop table key i perturb =
     (let j = (i * 4 + i + perturb + 1) mod length table in
      case table ! j of
        None \<Rightarrow> Some j
      | Some (k, v) \<Rightarrow>
          if k = key then Some j else lookdict_loop table key j (perturb div 32))"

declare lookdict_loop.simps [code]

definition lookdict :: "dict_table \<Rightarrow> nat \<Rightarrow> nat option" where
  "lookdict table key =
     (let i = key mod length table in
      case table ! i of
        None \<Rightarrow> Some i
      | Some (k, v) \<Rightarrow> if k = key then Some i else lookdict_loop table key i key)"

partial_function (option) insertdict_clean_loop ::
  "dict_table \<Rightarrow> nat \<Rightarrow> nat \<Rightarrow> nat option" where
  "insertdict_clean_loop table i perturb =
     (case table ! i of
        None \<Rightarrow> Some i
      | Some e \<Rightarrow>
          insertdict_clean_loop table ((i * 4 + i + perturb + 1) mod length table)
            (perturb div 32))"

declare insertdict_clean_loop.simps [code]

definition insertdict_clean :: "dict_table \<Rightarrow> nat \<Rightarrow> nat \<Rightarrow> dict_table option" where
  "insertdict_clean table key v =
     (case insertdict_clean_loop table (key mod length table) key of
        None \<Rightarrow> None
      | Some i \<Rightarrow> Some (table[i := Some (key, v)]))"

function dictresize_newsize :: "nat \<Rightarrow> nat \<Rightarrow> nat" where
  "dictresize_newsize newsize minused =
     (if newsize \<le> minused \<and> 0 < newsize then dictresize_newsize (newsize * 2) minused
      else newsize)"
  by pat_completeness auto
termination
  by (relation "measure (\<lambda>(newsize, minused). Suc minused - newsize)") auto

declare dictresize_newsize.simps [simp del]

fun dictresize_copy :: "dict_table \<Rightarrow> dict_table \<Rightarrow> dict_table option" where
  "dictresize_copy [] table = Some table"
| "dictresize_copy (None # old) table = dictresize_copy old table"
| "dictresize_copy (Some (key, v) # old) table =
     (case insertdict_clean table key v of
        None \<Rightarrow> None
      | Some table' \<Rightarrow> dictresize_copy old table')"

definition dictresize :: "dict_table \<Rightarrow> nat \<Rightarrow> dict_table option" where
  "dictresize table minused =
     dictresize_copy table (replicate (dictresize_newsize 8 minused) None)"

definition ma_used :: "dict_table \<Rightarrow> nat" where
  "ma_used table = length (filter (\<lambda>e. e \<noteq> None) table)"

definition PyDict_SetItem :: "dict_table \<Rightarrow> nat \<Rightarrow> nat \<Rightarrow> dict_table option" where
  "PyDict_SetItem table key v =
     (let n_used = ma_used table in
      case lookdict table key of
        None \<Rightarrow> None
      | Some i \<Rightarrow>
          (let table' = table[i := Some (key, v)];
               used = ma_used table'
           in if \<not> (n_used < used \<and> length table' * 2 \<le> used * 3) then Some table'
              else dictresize table' ((if 50000 < used then 2 else 4) * used)))"

fun dict_replay :: "(nat \<times> nat) list \<Rightarrow> dict_table \<Rightarrow> dict_table option" where
  "dict_replay [] table = Some table"
| "dict_replay ((key, v) # entries) table =
     (case PyDict_SetItem table key v of
        None \<Rightarrow> None
      | Some table' \<Rightarrow> dict_replay entries table')"

definition dict_items :: "(nat \<times> nat) list \<Rightarrow> (nat \<times> nat) list option" where
  "dict_items entries =
     (case dict_replay entries (replicate 8 None) of
        None \<Rightarrow> None
      | Some table \<Rightarrow> Some (concat (map (\<lambda>e. case e of None \<Rightarrow> [] | Some kv \<Rightarrow> [kv]) table)))"

text \<open>
  \<open>process\<close>: the walk from the current position, then the loop that prints every
  object of the dictionary, in the order of \<open>items()\<close>. Reading \<open>value.name\<close> or
  \<open>value.scripts\<close> raises when the slot was never assigned.
\<close>

fun print_objects :: "GameObj list \<Rightarrow> (nat \<times> nat) list \<Rightarrow> string \<Rightarrow> error + string" where
  "print_objects h [] out = Inr out"
| "print_objects h ((key, a) # items) out =
     (let obj = h ! a in
      case name obj of
        None \<Rightarrow> Inl AttributeError
      | Some nm \<Rightarrow>
          (let out1 = out @ ''***** OBJECT AT: '' @ format_08X key @ '' ('' @ nm @ '') *****''
                        @ [newline]
           in case scripts obj of
                None \<Rightarrow> Inl AttributeError
              | Some sc \<Rightarrow> print_objects h items (out1 @ sc @ [newline])))"

definition process :: "descumm \<Rightarrow> nat \<Rightarrow> Processor \<Rightarrow> (error + Processor) option" where
  "process descumm fuel p =
     (case processBlock descumm fuel p of
        None \<Rightarrow> None
      | Some (Inl e) \<Rightarrow> Some (Inl e)
      | Some (Inr p') \<Rightarrow>
          (case dict_items (obj_dict p') of
             None \<Rightarrow> None
           | Some items \<Rightarrow>
               (case print_objects (heap p') items (stdout p') of
                  Inl e \<Rightarrow> Some (Inl e)
                | Inr out \<Rightarrow> Some (Inr (p'\<lparr>stdout := out\<rparr>)))))"

section \<open>The entry point\<close>

text \<open>
  The body of \<open>main\<close> on the bytes of the input file. \<open>main_open\<close> is its first
  part: the key from the first raw byte, the decrypting stream, and the check of the
  four magic bytes; \<open>magic[0]\<close> raises \<open>IndexError\<close> on an empty file.
  \<open>main_body\<close> then runs the processor on the stream, sought back to 0.
\<close>

definition Processor_init :: "DecryptingStream \<Rightarrow> Processor" where
  "Processor_init s = \<lparr>infile = s, heap = [], obj_dict = [], current_obj = None, stdout = []\<rparr>"

definition main_open :: "string \<Rightarrow> error + DecryptingStream" where
  "main_open bytes =
     (case file_read \<lparr>content = bytes, position = 0\<rparr> 1 of
        (magic, f) \<Rightarrow>
          (case magic of
             [] \<Rightarrow> Inl IndexError
           | m0 # _ \<Rightarrow>
               (let k = ord m0 XOR ord (CHR ''L'');
                    s = \<lparr>stream = f, xor_key = k\<rparr>
                in case ds_seek s 0 SEEK_SET of
                     Inl e \<Rightarrow> Inl e
                   | Inr s1 \<Rightarrow>
                       (case ds_read s1 4 of
                          Inl e \<Rightarrow> Inl e
                        | Inr (magic4, s2) \<Rightarrow>
                            if magic4 \<noteq> ''LECF''
                            then Inl (ScummFileError ''This is not a compatible SCUMM file.'')
                            else ds_seek s2 0 SEEK_SET))))"

definition main_body :: "descumm \<Rightarrow> nat \<Rightarrow> string \<Rightarrow> (error + Processor) option" where
  "main_body descumm fuel bytes =
     (case main_open bytes of
        Inl e \<Rightarrow> Some (Inl e)
      | Inr s \<Rightarrow> process descumm fuel (Processor_init s))"

section \<open>Bytes and the XOR transform\<close>

lemma ord_nonneg: "0 \<le> ord c"
proof -
  have "ord c = int (of_char c)"
    by (simp add: ord_def of_nat_of_char)
  then show ?thesis by simp
qed

lemma ord_less_256: "ord c < 256"
  unfolding ord_def by (simp add: of_char_def)

lemma xor_byte_nonneg: "0 \<le> k \<Longrightarrow> 0 \<le> ord c XOR k"
  by (simp add: ord_nonneg)

lemma xor_byte_less: "0 \<le> k \<Longrightarrow> k < 256 \<Longrightarrow> ord c XOR k < 256"
  using ord_nonneg [of c] ord_less_256 [of c] XOR_upper [of "ord c" 8 k] by simp

lemma ord_char_of: "0 \<le> n \<Longrightarrow> n < 256 \<Longrightarrow> ord (char_of n) = n"
  unfolding ord_def by simp

lemma char_of_ord: "char_of (ord c) = c"
  unfolding ord_def by simp

lemma xor_join_total:
  "0 \<le> k \<Longrightarrow> k < 256 \<Longrightarrow> xor_join k data = Inr (map (\<lambda>x. char_of (ord x XOR k)) data)"
  by (induction data) (simp_all add: chr_def xor_byte_less ord_nonneg)

lemma xor_char_involution:
  assumes "0 \<le> k" "k < 256"
  shows "char_of (ord (char_of (ord c XOR k)) XOR k) = c"
proof -
  have "ord (char_of (ord c XOR k)) = ord c XOR k"
    using assms by (intro ord_char_of xor_byte_nonneg xor_byte_less)
  moreover have "(ord c XOR k) XOR k = ord c"
    by (simp add: xor.assoc)
  ultimately show ?thesis by (simp add: char_of_ord)
qed

lemma decrypt_total:
  "0 \<le> k \<Longrightarrow> k < 256 \<Longrightarrow> decrypt k data = Inr (map (\<lambda>x. char_of (ord x XOR k)) data)"
  by (cases "k = 0") (simp_all add: decrypt_def xor_join_total char_of_ord map_idI)

lemma decrypt_twice:
  assumes "0 \<le> k" "k < 256"
  shows "\<exists>enc. decrypt k data = Inr enc \<and> decrypt k enc = Inr data"
  using assms by (simp add: decrypt_total xor_char_involution comp_def)

text \<open>
  Claim C9. For every byte string and every key \<open>k\<close> that is a byte, the transform
  of \<open>DecryptingStream.read\<close> applied twice with \<open>k\<close> gives the bytes back; a
  stream with key 0 reads exactly what the underlying file reads, and leaves it in
  the same state; \<open>tell\<close> and \<open>seek\<close> are those of the underlying file, for
  every key.
\<close>

theorem decrypt_involution_passthrough:
  "(0 \<le> k \<and> k < 256 \<longrightarrow>
      (\<exists>enc. decrypt k bytes = Inr enc \<and> decrypt k enc = Inr bytes))
   \<and> ds_read \<lparr>stream = f, xor_key = 0\<rparr> n
       = Inr (fst (file_read f n), \<lparr>stream = snd (file_read f n), xor_key = 0\<rparr>)
   \<and> ds_tell \<lparr>stream = f, xor_key = k\<rparr> = file_tell f
   \<and> ds_seek \<lparr>stream = f, xor_key = k\<rparr> off w
       = (case file_seek f off w of
            Inl e \<Rightarrow> Inl e
          | Inr f' \<Rightarrow> Inr \<lparr>stream = f', xor_key = k\<rparr>)"
proof (intro conjI impI)
  assume "0 \<le> k \<and> k < 256"
  then show "\<exists>enc. decrypt k bytes = Inr enc \<and> decrypt k enc = Inr bytes"
    by (simp add: decrypt_twice)
next
  show "ds_read \<lparr>stream = f, xor_key = 0\<rparr> n
       = Inr (fst (file_read f n), \<lparr>stream = snd (file_read f n), xor_key = 0\<rparr>)"
    by (simp add: ds_read_def decrypt_def split: prod.splits)
next
  show "ds_tell \<lparr>stream = f, xor_key = k\<rparr> = file_tell f"
    by (simp add: ds_tell_def)
next
  show "ds_seek \<lparr>stream = f, xor_key = k\<rparr> off w
       = (case file_seek f off w of
            Inl e \<Rightarrow> Inl e
          | Inr f' \<Rightarrow> Inr \<lparr>stream = f', xor_key = k\<rparr>)"
    by (simp add: ds_seek_def split: sum.splits)
qed

theorem decrypt_involution_passthrough_witness:
  "(0::int) \<le> 105 \<and> (105::int) < 256 \<and>
   (\<exists>enc. decrypt 105 ''LECF'' = Inr enc \<and> decrypt 105 enc = Inr ''LECF'')"
  using decrypt_involution_passthrough [of 105 "''LECF''"] by simp

section \<open>The magic check\<close>

lemma main_open_Cons:
  "main_open (b0 # rest) =
     (if map (\<lambda>x. char_of (ord x XOR (ord b0 XOR ord (CHR ''L'')))) (take 3 rest) = ''ECF''
      then Inr \<lparr>stream = \<lparr>content = b0 # rest, position = 0\<rparr>,
                 xor_key = ord b0 XOR ord (CHR ''L'')\<rparr>
      else Inl (ScummFileError ''This is not a compatible SCUMM file.''))"
proof -
  define k where "k = ord b0 XOR ord (CHR ''L'')"
  have k: "0 \<le> k" "k < 256"
    using xor_byte_nonneg [of "ord (CHR ''L'')" b0] xor_byte_less [of "ord (CHR ''L'')" b0]
    by (simp_all add: k_def ord_def)
  have first: "char_of (ord b0 XOR k) = CHR ''L''"
  proof -
    have "ord b0 XOR k = ord (CHR ''L'')"
      unfolding k_def by (simp add: xor.assoc [symmetric])
    then show ?thesis by (simp add: char_of_ord)
  qed
  have rd: "take 4 (b0 # rest) = b0 # take 3 rest"
    by (simp add: numeral_eq_Suc)
  have "main_open (b0 # rest) =
      (if map (\<lambda>x. char_of (ord x XOR k)) (take 3 rest) = ''ECF''
       then Inr \<lparr>stream = \<lparr>content = b0 # rest, position = 0\<rparr>, xor_key = k\<rparr>
       else Inl (ScummFileError ''This is not a compatible SCUMM file.''))"
    using first
    by (simp add: main_open_def file_read_def ds_seek_def file_seek_def ds_read_def
        decrypt_total [OF k] k_def [symmetric] Let_def rd)
  then show ?thesis by (simp add: k_def)
qed

text \<open>
  Claim C10, as stated, fails: the key is the first raw byte XOR \<open>'L'\<close>, so two
  files that differ only in byte 0 have different keys, and their bytes 1 to 3
  decrypt differently. \<open>LECF\<close> is accepted and \<open>MECF\<close> is rejected.
\<close>

theorem magic_check_depends_on_byte0:
  "main_open ''LECF'' = Inr \<lparr>stream = \<lparr>content = ''LECF'', position = 0\<rparr>, xor_key = 0\<rparr>
   \<and> main_open ''MECF'' = Inl (ScummFileError ''This is not a compatible SCUMM file.'')
   \<and> tl ''LECF'' = tl ''MECF''"
  by (simp add: main_open_Cons ord_def char_of_eq_iff)

text \<open>
  Claim C10, amended. For every file that is not empty, the first decrypted byte
  is \<open>'L'\<close> whatever the file holds, and the magic check accepts the file exactly
  when its raw bytes 1 to 3, each XORed with the key (the raw byte 0 XOR \<open>'L'\<close>),
  are \<open>ECF\<close>; the stream is then at position 0 with that key. The outcome
  depends on byte 0 through the key.
\<close>

theorem main_open_magic:
  "char_of (ord b0 XOR (ord b0 XOR ord (CHR ''L''))) = CHR ''L''
   \<and> main_open (b0 # rest) =
      (if map (\<lambda>x. char_of (ord x XOR (ord b0 XOR ord (CHR ''L'')))) (take 3 rest) = ''ECF''
       then Inr \<lparr>stream = \<lparr>content = b0 # rest, position = 0\<rparr>,
                  xor_key = ord b0 XOR ord (CHR ''L'')\<rparr>
       else Inl (ScummFileError ''This is not a compatible SCUMM file.''))"
proof -
  have "ord b0 XOR (ord b0 XOR ord (CHR ''L'')) = ord (CHR ''L'')"
    by (simp add: xor.assoc [symmetric])
  then have "char_of (ord b0 XOR (ord b0 XOR ord (CHR ''L''))) = CHR ''L''"
    by (simp add: char_of_ord)
  then show ?thesis
    using main_open_Cons [of b0 rest] by simp
qed

section \<open>The order of the report\<close>

text \<open>
  The objects are printed in the order of the hash slots: of two objects at the
  offsets 17 and 48, entered in this order, the one at 48 (slot 0) is listed before
  the one at 17 (slot 1). A fifth key makes the table of 8 slots grow to 32.
\<close>

lemma dict_items_slot_order:
  "dict_items [(17, 0), (48, 1)] = Some [(48, 1), (17, 0)]
   \<and> dict_items [(8, 0), (16, 1), (24, 2), (32, 3), (40, 4)]
       = Some [(8, 0), (16, 1), (40, 4), (24, 2), (32, 3)]"
  by (intro conjI; code_simp)

section \<open>The walker: positions\<close>

lemmas stream_defs =
  ds_tell_def file_tell_def ds_read_def file_read_def decrypt_def ds_seek_def file_seek_def
  unpack_I_def ord_def

lemma Suc4_eq: "Suc (Suc (Suc (Suc 0))) = 4"
  by simp



















section \<open>The walker: blocks that are not well formed\<close>

lemma undersized_step:
  "processBlock descumm (Suc fuel)
     \<lparr>infile = \<lparr>stream = \<lparr>content = ''LECF'' @ [CHR 0x00, CHR 0x00, CHR 0x00, CHR 0x10]
                                      @ ''ABCD'' @ [CHR 0x00, CHR 0x00, CHR 0x00, CHR 0x00],
                           position = 8\<rparr>, xor_key = 0\<rparr>,
      heap = [], obj_dict = [], current_obj = None, stdout = []\<rparr>
   = Some (Inr \<lparr>infile = \<lparr>stream = \<lparr>content = ''LECF'' @ [CHR 0x00, CHR 0x00, CHR 0x00, CHR 0x10]
                                      @ ''ABCD'' @ [CHR 0x00, CHR 0x00, CHR 0x00, CHR 0x00],
                           position = 8\<rparr>, xor_key = 0\<rparr>,
      heap = [], obj_dict = [], current_obj = None, stdout = []\<rparr>)"
  by (simp add: stream_defs isValidBlockType_def)

lemma undersized_loop:
  "processSubBlocks_while descumm fuel 16
     \<lparr>infile = \<lparr>stream = \<lparr>content = ''LECF'' @ [CHR 0x00, CHR 0x00, CHR 0x00, CHR 0x10]
                                      @ ''ABCD'' @ [CHR 0x00, CHR 0x00, CHR 0x00, CHR 0x00],
                           position = 8\<rparr>, xor_key = 0\<rparr>,
      heap = [], obj_dict = [], current_obj = None, stdout = []\<rparr> = None"
  (is "processSubBlocks_while descumm fuel 16 ?P = None")
proof (induction fuel)
  case 0
  show ?case by simp
next
  case (Suc fuel)
  note IH = Suc.IH
  have unfold: "processSubBlocks_while descumm (Suc fuel) 16 ?P =
      (case processBlock descumm fuel ?P of
         None \<Rightarrow> None
       | Some (Inl e) \<Rightarrow> Some (Inl e)
       | Some (Inr p') \<Rightarrow> processSubBlocks_while descumm fuel 16 p')"
    by (simp add: ds_tell_def file_tell_def del: processBlock.simps)
  show ?case
  proof (cases fuel)
    case 0
    with unfold show ?thesis by simp
  next
    case (Suc g)
    have "processBlock descumm fuel ?P = Some (Inr ?P)"
      unfolding Suc by (rule undersized_step)
    with unfold IH show ?thesis by (simp del: processBlock.simps)
  qed
qed

lemma undersized_main:
  "main_body descumm fuel (''LECF'' @ [CHR 0x00, CHR 0x00, CHR 0x00, CHR 0x10]
                                      @ ''ABCD'' @ [CHR 0x00, CHR 0x00, CHR 0x00, CHR 0x00]) = None"
proof (cases fuel)
  case 0
  then show ?thesis
    by (simp add: main_body_def main_open_Cons process_def Processor_init_def ord_def char_of_eq_iff)
next
  case (Suc f)
  show ?thesis
  proof (cases f)
    case 0
    with Suc show ?thesis
      by (simp add: main_body_def main_open_Cons process_def Processor_init_def char_of_eq_iff stream_defs Suc4_eq)
  next
    case (Suc g)
    with \<open>fuel = Suc f\<close> undersized_loop [of descumm g] show ?thesis
      by (simp add: main_body_def main_open_Cons process_def Processor_init_def char_of_eq_iff stream_defs Suc4_eq)
  qed
qed

text \<open>
  Claim C2, at a failing input. The archive is the root container \<open>LECF\<close> of
  declared size 16 holding one block \<open>ABCD\<close> of declared size 0. The walker does
  not check the size against the header size: the payload size is \<open>-8\<close>, the tag
  passes \<open>isValidBlockType\<close>, and \<open>seek(-8, SEEK_CUR)\<close> puts the stream back at
  the header of the same block, with no error. The block returns the very state it
  started from, so the walk of the container never returns, whatever the fuel.
\<close>

theorem undersized_block_seeks_backwards:
  "processBlock descumm (Suc fuel)
     \<lparr>infile = \<lparr>stream = \<lparr>content = ''LECF'' @ [CHR 0x00, CHR 0x00, CHR 0x00, CHR 0x10]
                                      @ ''ABCD'' @ [CHR 0x00, CHR 0x00, CHR 0x00, CHR 0x00],
                           position = 8\<rparr>, xor_key = 0\<rparr>,
      heap = [], obj_dict = [], current_obj = None, stdout = []\<rparr>
   = Some (Inr \<lparr>infile = \<lparr>stream = \<lparr>content = ''LECF'' @ [CHR 0x00, CHR 0x00, CHR 0x00, CHR 0x10]
                                      @ ''ABCD'' @ [CHR 0x00, CHR 0x00, CHR 0x00, CHR 0x00],
                           position = 8\<rparr>, xor_key = 0\<rparr>,
      heap = [], obj_dict = [], current_obj = None, stdout = []\<rparr>)
   \<and> main_body descumm fuel (''LECF'' @ [CHR 0x00, CHR 0x00, CHR 0x00, CHR 0x10]
                                      @ ''ABCD'' @ [CHR 0x00, CHR 0x00, CHR 0x00, CHR 0x00]) = None"
  using undersized_step [of descumm fuel] undersized_main [of descumm fuel]
  by (simp only: simp_thms)

lemma isValidBlockType_first_byte:
  "isValidBlockType [a, b, c, d] = Inr (ord (CHR ''A'') \<le> ord a \<and> ord a < ord (CHR ''Z''))"
  by (auto simp add: isValidBlockType_def ord_def)

text \<open>
  Claim C4, at failing inputs. \<open>isValidBlockType\<close> compares the whole tag with
  \<open>'A'\<close> and \<open>'Z'\<close> in its loop, not the character \<open>ch\<close>: a tag of four bytes
  is valid exactly when its first byte is in \<open>'A'..'Y'\<close>. The tag \<open>Aaaa\<close>, whose
  other bytes are not upper-case letters, is skipped, and the tag \<open>ZZZZ\<close>, four
  upper-case letters, raises the \<open>WTFError\<close>.
\<close>

theorem block_type_check_reads_first_byte_only:
  "isValidBlockType [a, b, c, d] = Inr (ord (CHR ''A'') \<le> ord a \<and> ord a < ord (CHR ''Z''))
   \<and> isValidBlockType ''Aaaa'' = Inr True
   \<and> isValidBlockType ''ZZZZ'' = Inr False
   \<and> map_option (map_sum id (\<lambda>p. ds_tell (infile p)))
        (main_body (\<lambda>bytes. (0, [], [])) 10
          (''LECF'' @ [CHR 0x00, CHR 0x00, CHR 0x00, CHR 0x10]
           @ ''Aaaa'' @ [CHR 0x00, CHR 0x00, CHR 0x00, CHR 0x08]))
       = Some (Inr 16)
   \<and> main_body (\<lambda>bytes. (0, [], [])) 10
          (''LECF'' @ [CHR 0x00, CHR 0x00, CHR 0x00, CHR 0x10]
           @ ''ZZZZ'' @ [CHR 0x00, CHR 0x00, CHR 0x00, CHR 0x08])
       = Some (Inl (WTFError ''Invalid block type at offset 8''))"
proof (intro conjI)
  show "isValidBlockType [a, b, c, d] = Inr (ord (CHR ''A'') \<le> ord a \<and> ord a < ord (CHR ''Z''))"
    by (rule isValidBlockType_first_byte)
qed code_simp+

section \<open>The walker: objects\<close>

text \<open>
  Claim C1, at a failing input. The object at offset 8 has a name block and two
  verb scripts; the disassembler stub answers \<open>Text("a")\<close> for the first and
  \<open>Text("b")\<close> for the second. The second assignment to \<open>scripts\<close> replaces the
  first: the record and the report hold the string of the last verb script only.
\<close>

theorem second_verb_script_replaces_first:
  "map_option (map_sum id (\<lambda>p. (heap p, stdout p)))
     (main_body (\<lambda>bytes. (0, ''Text('' @ [dquote] @ [last bytes] @ [dquote] @ '')'', [])) 10
        (''LECF'' @ [CHR 0x00, CHR 0x00, CHR 0x00, CHR 0x2E]
         @ ''OBCD'' @ [CHR 0x00, CHR 0x00, CHR 0x00, CHR 0x26]
         @ ''OBNA'' @ [CHR 0x00, CHR 0x00, CHR 0x00, CHR 0x0C] @ ''Foo'' @ [CHR 0x00]
         @ ''VERB'' @ [CHR 0x00, CHR 0x00, CHR 0x00, CHR 0x09] @ ''a''
         @ ''VERB'' @ [CHR 0x00, CHR 0x00, CHR 0x00, CHR 0x09] @ ''b''))
   = Some (Inr ([\<lparr>name = Some ''Foo'',
                  scripts = Some (''[String]'' @ [newline] @ ''b'' @ [newline, newline])\<rparr>],
                ''***** OBJECT AT: 00000008 (Foo) *****'' @ [newline]
                @ ''[String]'' @ [newline] @ ''b'' @ [newline, newline, newline]))"
  by code_simp

text \<open>
  Claim C8, at failing inputs. A new \<open>GameObj\<close> has no \<open>scripts\<close> (and no
  \<open>name\<close>): after the walk of an object with a name block and no verb script the
  slot is still unassigned, not the empty text, and printing the objects raises
  \<open>AttributeError\<close>; so does an object with no block at all.
\<close>

theorem object_without_verb_script_fails_report:
  "map_option (map_sum id heap)
     (processBlock (\<lambda>bytes. (0, [], [])) 10
        (Processor_init \<lparr>stream = \<lparr>content = ''LECF'' @ [CHR 0x00, CHR 0x00, CHR 0x00, CHR 0x1C]
            @ ''OBCD'' @ [CHR 0x00, CHR 0x00, CHR 0x00, CHR 0x14]
            @ ''OBNA'' @ [CHR 0x00, CHR 0x00, CHR 0x00, CHR 0x0C] @ ''Foo'' @ [CHR 0x00],
          position = 0\<rparr>, xor_key = 0\<rparr>))
     = Some (Inr [\<lparr>name = Some ''Foo'', scripts = None\<rparr>])
   \<and> main_body (\<lambda>bytes. (0, [], [])) 10
        (''LECF'' @ [CHR 0x00, CHR 0x00, CHR 0x00, CHR 0x1C]
            @ ''OBCD'' @ [CHR 0x00, CHR 0x00, CHR 0x00, CHR 0x14]
            @ ''OBNA'' @ [CHR 0x00, CHR 0x00, CHR 0x00, CHR 0x0C] @ ''Foo'' @ [CHR 0x00])
     = Some (Inl AttributeError)
   \<and> main_body (\<lambda>bytes. (0, [], [])) 10
        (''LECF'' @ [CHR 0x00, CHR 0x00, CHR 0x00, CHR 0x10]
            @ ''OBCD'' @ [CHR 0x00, CHR 0x00, CHR 0x00, CHR 0x08])
     = Some (Inl AttributeError)"
  by (intro conjI; code_simp)

lemma readASCIIZ_cases:
  "(case readASCIIZ s2 of None \<Rightarrow> None | Some (Inl e) \<Rightarrow> Some (Inl e)
     | Some (Inr (nm, s3)) \<Rightarrow> Some (Inl AttributeError)) \<noteq> Some (Inr p')"
  by (simp split: option.splits sum.splits prod.splits)


lemma update_not_Nil: "AList.update k v xs \<noteq> []"
  by (cases xs) auto

lemma slot_preserved:
  "(\<forall>p p'. processBlock descumm fuel p = Some (Inr p') \<longrightarrow>
       (current_obj p \<noteq> None \<longrightarrow> current_obj p' \<noteq> None)
     \<and> ((current_obj p = None \<longleftrightarrow> obj_dict p = []) \<longrightarrow>
          (current_obj p' = None \<longleftrightarrow> obj_dict p' = [])))
 \<and> (\<forall>p p' sz. processSubBlocks descumm fuel sz p = Some (Inr p') \<longrightarrow>
       (current_obj p \<noteq> None \<longrightarrow> current_obj p' \<noteq> None)
     \<and> ((current_obj p = None \<longleftrightarrow> obj_dict p = []) \<longrightarrow>
          (current_obj p' = None \<longleftrightarrow> obj_dict p' = [])))
 \<and> (\<forall>p p' e. processSubBlocks_while descumm fuel e p = Some (Inr p') \<longrightarrow>
       (current_obj p \<noteq> None \<longrightarrow> current_obj p' \<noteq> None)
     \<and> ((current_obj p = None \<longleftrightarrow> obj_dict p = []) \<longrightarrow>
          (current_obj p' = None \<longleftrightarrow> obj_dict p' = [])))"
  (is "?B fuel \<and> ?S fuel \<and> ?W fuel")
proof (induction fuel)
  case 0
  show ?case by simp
next
  case (Suc fuel)
  then have B: "?B fuel" and S: "?S fuel" and W: "?W fuel" by simp_all
  have "?W (Suc fuel)"
  proof (intro allI impI)
    fix p p' e
    assume run: "processSubBlocks_while descumm (Suc fuel) e p = Some (Inr p')"
    show "(current_obj p \<noteq> None \<longrightarrow> current_obj p' \<noteq> None)
     \<and> ((current_obj p = None \<longleftrightarrow> obj_dict p = []) \<longrightarrow>
          (current_obj p' = None \<longleftrightarrow> obj_dict p' = []))"
    proof (cases "int (ds_tell (infile p)) < e")
      case False
      with run have "p' = p" by (auto split: if_splits)
      then show ?thesis by simp
    next
      case True
      with run obtain p1 where b: "processBlock descumm fuel p = Some (Inr p1)"
        and w: "processSubBlocks_while descumm fuel e p1 = Some (Inr p')"
        by (auto split: option.splits sum.splits)
      from B [rule_format, OF b] W [rule_format, OF w] show ?thesis by argo
    qed
  qed
  moreover have "?S (Suc fuel)"
  proof (intro allI impI)
    fix p p' sz
    assume "processSubBlocks descumm (Suc fuel) sz p = Some (Inr p')"
    then have w: "processSubBlocks_while descumm fuel (int (ds_tell (infile p)) + sz) p
        = Some (Inr p')"
      by (simp add: Let_def)
    from W [rule_format, OF w]
    show "(current_obj p \<noteq> None \<longrightarrow> current_obj p' \<noteq> None)
     \<and> ((current_obj p = None \<longleftrightarrow> obj_dict p = []) \<longrightarrow>
          (current_obj p' = None \<longleftrightarrow> obj_dict p' = []))" .
  qed
  moreover have "?B (Suc fuel)"
  proof (intro allI impI)
    fix p p'
    assume run: "processBlock descumm (Suc fuel) p = Some (Inr p')"
    show "(current_obj p \<noteq> None \<longrightarrow> current_obj p' \<noteq> None)
     \<and> ((current_obj p = None \<longleftrightarrow> obj_dict p = []) \<longrightarrow>
          (current_obj p' = None \<longleftrightarrow> obj_dict p' = []))"
    proof -
      have keep: "processSubBlocks descumm fuel sz q = Some (Inr p') \<Longrightarrow>
          (current_obj q \<noteq> None \<longrightarrow> current_obj p' \<noteq> None)
        \<and> ((current_obj q = None \<longleftrightarrow> obj_dict q = []) \<longrightarrow>
             (current_obj p' = None \<longleftrightarrow> obj_dict p' = []))" for sz q
        by (rule S [rule_format])
      from run obtain bt s1 where hdr1: "ds_read (infile p) 4 = Inr (bt, s1)"
        by (cases "ds_read (infile p) 4") auto
      from run hdr1 obtain raw s2 where hdr2: "ds_read s1 4 = Inr (raw, s2)"
        by (cases "ds_read s1 4") auto
      from run hdr1 hdr2 obtain n where size: "unpack_I raw = Inr n"
        by (cases "unpack_I raw") auto
      note hdr = hdr1 hdr2 size
      consider (container) "bt \<in> set [''LECF'', ''LFLF'', ''ROOM'']"
        | (script) "bt \<in> set [''SCRP'', ''LSCR'', ''ENCD'', ''EXCD'', ''VERB'']"
        | (object) "bt = ''OBCD''"
        | (name) "bt = ''OBNA''"
        | (other) "bt \<notin> set [''LECF'', ''LFLF'', ''ROOM'', ''SCRP'', ''LSCR'', ''ENCD'',
                              ''EXCD'', ''VERB'', ''OBCD'', ''OBNA'']"
        by auto
      then show ?thesis
      proof cases
        case container
        with run hdr
        have "processSubBlocks descumm fuel (n - 8) (p\<lparr>infile := s2\<rparr>) = Some (Inr p')"
          by (simp add: Let_def del: processSubBlocks.simps)
        from keep [OF this] show ?thesis by simp
      next
        case object
        let ?q = "p\<lparr>infile := s2,
                   heap := heap p @ [\<lparr>name = None, scripts = None\<rparr>],
                   current_obj := Some (length (heap p)),
                   obj_dict := AList.update (ds_tell (infile p)) (length (heap p)) (obj_dict p)\<rparr>"
        from object run hdr
        have "processSubBlocks descumm fuel (n - 8) ?q = Some (Inr p')"
          by (simp add: Let_def del: processSubBlocks.simps)
        note k = keep [OF this]
        have q1: "current_obj ?q \<noteq> None" by simp
        have q2: "current_obj ?q = None \<longleftrightarrow> obj_dict ?q = []"
          by (simp add: update_not_Nil)
        from k q1 have r1: "current_obj p' \<noteq> None" by (rule conjunct1 [THEN mp])
        from k q2 have r2: "current_obj p' = None \<longleftrightarrow> obj_dict p' = []"
          by (rule conjunct2 [THEN mp])
        from r1 r2 show ?thesis by (intro conjI impI)
      next
        case script
        then have nc: "bt \<notin> set [''LECF'', ''LFLF'', ''ROOM'']" by auto
        from run hdr nc script
        have "(case ds_seek s2 (int (ds_tell (infile p))) SEEK_SET of
                 Inl e \<Rightarrow> Some (Inl e)
               | Inr s3 \<Rightarrow>
                  (case handleScript descumm s3 n of
                     Inl e \<Rightarrow> Some (Inl e)
                   | Inr (result, s4) \<Rightarrow>
                       if bt = ''VERB'' then
                         (case current_obj p of
                            None \<Rightarrow> Some (Inl AttributeError)
                          | Some a \<Rightarrow>
                              Some (Inr (p\<lparr>infile := s4,
                                 heap := (heap p)[a := (heap p ! a)\<lparr>scripts := Some result\<rparr>]\<rparr>)))
                       else
                         Some (Inr (p\<lparr>infile := s4,
                            stdout := stdout p @ ''***** '' @ bt @ '' SCRIPT AT: ''
                              @ format_08X (ds_tell (infile p)) @ '' *****'' @ [newline]
                              @ result @ [newline]\<rparr>)))) = Some (Inr p')"
          by (simp add: Let_def)
        then have "current_obj p' = current_obj p \<and> obj_dict p' = obj_dict p"
          by (auto split: sum.splits prod.splits option.splits if_splits)
        then show ?thesis by simp
      next
        case name
        with run hdr
        have "(case readASCIIZ s2 of
                 None \<Rightarrow> None
               | Some (Inl e) \<Rightarrow> Some (Inl e)
               | Some (Inr (nm, s3)) \<Rightarrow>
                   (case current_obj p of
                      None \<Rightarrow> Some (Inl AttributeError)
                    | Some a \<Rightarrow>
                        Some (Inr (p\<lparr>infile := s3,
                               heap := (heap p)[a := (heap p ! a)\<lparr>name := Some nm\<rparr>]\<rparr>))))
              = Some (Inr p')"
          by (simp add: Let_def)
        then have "current_obj p' = current_obj p \<and> obj_dict p' = obj_dict p"
          by (auto split: sum.splits prod.splits option.splits)
        then show ?thesis by simp
      next
        case other
        then have no: "bt \<notin> set [''LECF'', ''LFLF'', ''ROOM'']"
          "bt \<notin> set [''SCRP'', ''LSCR'', ''ENCD'', ''EXCD'', ''VERB'']"
          "bt \<noteq> ''OBCD''" "bt \<noteq> ''OBNA''"
          by auto
        from run hdr no
        have "(case isValidBlockType bt of
                 Inl e \<Rightarrow> Some (Inl e)
               | Inr valid \<Rightarrow>
                   if \<not> valid then
                     Some (Inl (WTFError (''Invalid block type at offset ''
                        @ format_X (ds_tell (infile p)))))
                   else
                     (case ds_seek s2 (n - 8) SEEK_CUR of
                        Inl e \<Rightarrow> Some (Inl e)
                      | Inr s3 \<Rightarrow> Some (Inr (p\<lparr>infile := s3\<rparr>)))) = Some (Inr p')"
          by (simp add: Let_def)
        then have "current_obj p' = current_obj p \<and> obj_dict p' = obj_dict p"
          by (auto split: sum.splits if_splits)
        then show ?thesis by simp
      qed
    qed
  qed
  ultimately show ?case by blast
qed

text \<open>
  Claim C7, as stated, fails, in two ways. A name block before every object does
  not raise the \<open>WTFError\<close> of an explicit check: the name is read first, and the
  assignment to the attribute of \<open>None\<close> raises \<open>AttributeError\<close>. A name block
  behind an object container whose range has ended raises nothing at all: the
  current-object slot is never cleared, the walk reaches the end of the archive
  (position 49) and the object at offset 8, named \<open>Foo\<close> by its own name block, is
  renamed \<open>Bar\<close>.
\<close>

theorem name_block_without_object_counterexample:
  "main_body (\<lambda>bytes. (0, [], [])) 10
     (''LECF'' @ [CHR 0x00, CHR 0x00, CHR 0x00, CHR 0x14]
       @ ''OBNA'' @ [CHR 0x00, CHR 0x00, CHR 0x00, CHR 0x0C] @ ''Foo'' @ [CHR 0x00])
   = Some (Inl AttributeError)
   \<and> map_option (map_sum id (\<lambda>p. (ds_tell (infile p), heap p, stdout p)))
       (main_body (\<lambda>bytes. (0, [], [])) 10
         (''LECF'' @ [CHR 0x00, CHR 0x00, CHR 0x00, CHR 0x31]
           @ ''OBCD'' @ [CHR 0x00, CHR 0x00, CHR 0x00, CHR 0x1D]
           @ ''OBNA'' @ [CHR 0x00, CHR 0x00, CHR 0x00, CHR 0x0C] @ ''Foo'' @ [CHR 0x00]
           @ ''VERB'' @ [CHR 0x00, CHR 0x00, CHR 0x00, CHR 0x09] @ ''x''
           @ ''OBNA'' @ [CHR 0x00, CHR 0x00, CHR 0x00, CHR 0x0C] @ ''Bar'' @ [CHR 0x00]))
     = Some (Inr (49, [\<lparr>name = Some ''Bar'', scripts = Some []\<rparr>],
                  ''***** OBJECT AT: 00000008 (Bar) *****'' @ [newline, newline]))"
  by (intro conjI; code_simp)

text \<open>
  Claim C7, amended. When a name block is processed while the current-object slot
  is empty, processing never proceeds past the block: the null-terminated name is
  read first; if that read raises, its error is raised, and if it returns, the
  assignment raises an unchecked \<open>AttributeError\<close>. There is no explicit check,
  and the error is not a \<open>WTFError\<close>. The processor starts with an empty slot and
  an empty object dictionary; a block that returns never clears a slot that was
  set, and where slot and dictionary were empty together before the block, they
  are empty together after it. So the statement covers the name blocks that come
  before every object container, and not a name block behind an object container
  that has ended: there the slot still holds that object.
\<close>

theorem name_block_without_object:
  assumes hdr1: "ds_read (infile p) 4 = Inr (''OBNA'', s1)"
    and hdr2: "ds_read s1 4 = Inr (raw, s2)"
    and size: "unpack_I raw = Inr declared_size"
  shows "(current_obj p = None \<longrightarrow>
            processBlock descumm (Suc fuel) p =
              (case readASCIIZ s2 of
                 None \<Rightarrow> None
               | Some (Inl e) \<Rightarrow> Some (Inl e)
               | Some (Inr (nm, s3)) \<Rightarrow> Some (Inl AttributeError))
          \<and> processBlock descumm (Suc fuel) p \<noteq> Some (Inr p'))
       \<and> current_obj (Processor_init s) = None \<and> obj_dict (Processor_init s) = []
       \<and> (\<forall>q q' k. processBlock descumm k q = Some (Inr q') \<longrightarrow>
             (current_obj q \<noteq> None \<longrightarrow> current_obj q' \<noteq> None)
           \<and> ((current_obj q = None \<longleftrightarrow> obj_dict q = []) \<longrightarrow>
                (current_obj q' = None \<longleftrightarrow> obj_dict q' = [])))"
proof -
  have a: "processBlock descumm (Suc fuel) p =
              (case readASCIIZ s2 of
                 None \<Rightarrow> None
               | Some (Inl e) \<Rightarrow> Some (Inl e)
               | Some (Inr (nm, s3)) \<Rightarrow> Some (Inl AttributeError))"
    if "current_obj p = None"
    using assms that by (simp split: option.splits sum.splits prod.splits)
  have b: "processBlock descumm (Suc fuel) p \<noteq> Some (Inr p')" if "current_obj p = None"
    using a [OF that] readASCIIZ_cases [of s2 p'] by simp
  have c: "current_obj (Processor_init s) = None \<and> obj_dict (Processor_init s) = []"
    by (simp add: Processor_init_def)
  have d: "(current_obj q \<noteq> None \<longrightarrow> current_obj q' \<noteq> None)
           \<and> ((current_obj q = None \<longleftrightarrow> obj_dict q = []) \<longrightarrow>
                (current_obj q' = None \<longleftrightarrow> obj_dict q' = []))"
    if "processBlock descumm k q = Some (Inr q')" for q q' k
    using slot_preserved [of descumm k, THEN conjunct1, rule_format, OF that] .
  have ab: "current_obj p = None \<longrightarrow>
            processBlock descumm (Suc fuel) p =
              (case readASCIIZ s2 of
                 None \<Rightarrow> None
               | Some (Inl e) \<Rightarrow> Some (Inl e)
               | Some (Inr (nm, s3)) \<Rightarrow> Some (Inl AttributeError))
          \<and> processBlock descumm (Suc fuel) p \<noteq> Some (Inr p')"
    using a b by (intro impI conjI)
  have d': "\<forall>q q' k. processBlock descumm k q = Some (Inr q') \<longrightarrow>
             (current_obj q \<noteq> None \<longrightarrow> current_obj q' \<noteq> None)
           \<and> ((current_obj q = None \<longleftrightarrow> obj_dict q = []) \<longrightarrow>
                (current_obj q' = None \<longleftrightarrow> obj_dict q' = []))"
    using d by (intro allI impI)
  show ?thesis
    using ab c d' by (intro conjI) (rule ab, rule c [THEN conjunct1], rule c [THEN conjunct2], rule d')
qed

theorem name_block_without_object_witness:
  "ds_read (infile (Processor_init \<lparr>stream = \<lparr>content = ''OBNA'' @ [CHR 0x00, CHR 0x00, CHR 0x00, CHR 0x0C] @ ''Foo'' @ [CHR 0x00], position = 0\<rparr>, xor_key = 0\<rparr>)) 4
     = Inr (''OBNA'', \<lparr>stream = \<lparr>content = ''OBNA'' @ [CHR 0x00, CHR 0x00, CHR 0x00, CHR 0x0C] @ ''Foo'' @ [CHR 0x00], position = 4\<rparr>, xor_key = 0\<rparr>)
   \<and> ds_read \<lparr>stream = \<lparr>content = ''OBNA'' @ [CHR 0x00, CHR 0x00, CHR 0x00, CHR 0x0C] @ ''Foo'' @ [CHR 0x00], position = 4\<rparr>, xor_key = 0\<rparr> 4
     = Inr ([CHR 0x00, CHR 0x00, CHR 0x00, CHR 0x0C], \<lparr>stream = \<lparr>content = ''OBNA'' @ [CHR 0x00, CHR 0x00, CHR 0x00, CHR 0x0C] @ ''Foo'' @ [CHR 0x00], position = 8\<rparr>, xor_key = 0\<rparr>)
   \<and> unpack_I [CHR 0x00, CHR 0x00, CHR 0x00, CHR 0x0C] = Inr 12
   \<and> current_obj (Processor_init \<lparr>stream = \<lparr>content = ''OBNA'' @ [CHR 0x00, CHR 0x00, CHR 0x00, CHR 0x0C] @ ''Foo'' @ [CHR 0x00], position = 0\<rparr>, xor_key = 0\<rparr>) = None
   \<and> processBlock (\<lambda>bytes. (0, [], [])) (Suc 0) (Processor_init \<lparr>stream = \<lparr>content = ''OBNA'' @ [CHR 0x00, CHR 0x00, CHR 0x00, CHR 0x0C] @ ''Foo'' @ [CHR 0x00], position = 0\<rparr>, xor_key = 0\<rparr>)
     = Some (Inl AttributeError)
   \<and> map_option (map_sum id (\<lambda>p. (current_obj p, obj_dict p)))
       (processBlock (\<lambda>bytes. (0, [], [])) 10
         (Processor_init \<lparr>stream = \<lparr>content =
           ''LECF'' @ [CHR 0x00, CHR 0x00, CHR 0x00, CHR 0x31]
           @ ''OBCD'' @ [CHR 0x00, CHR 0x00, CHR 0x00, CHR 0x1D]
           @ ''OBNA'' @ [CHR 0x00, CHR 0x00, CHR 0x00, CHR 0x0C] @ ''Foo'' @ [CHR 0x00]
           @ ''VERB'' @ [CHR 0x00, CHR 0x00, CHR 0x00, CHR 0x09] @ ''x''
           @ ''OBNA'' @ [CHR 0x00, CHR 0x00, CHR 0x00, CHR 0x0C] @ ''Bar'' @ [CHR 0x00],
           position = 0\<rparr>, xor_key = 0\<rparr>))
     = Some (Inr (Some 0, [(8, 0)]))"
  (is "?h1 \<and> ?h2 \<and> ?h3 \<and> ?h4 \<and> ?c \<and> ?inv")
proof -
  have h1: ?h1 by code_simp
  have h2: ?h2 by code_simp
  have h3: ?h3 by code_simp
  have h4: ?h4 by code_simp
  have inv: ?inv by code_simp
  have rd: "readASCIIZ \<lparr>stream = \<lparr>content = ''OBNA'' @ [CHR 0x00, CHR 0x00, CHR 0x00, CHR 0x0C] @ ''Foo'' @ [CHR 0x00], position = 8\<rparr>, xor_key = 0\<rparr>
     = Some (Inr (''Foo'', \<lparr>stream = \<lparr>content = ''OBNA'' @ [CHR 0x00, CHR 0x00, CHR 0x00, CHR 0x0C] @ ''Foo'' @ [CHR 0x00], position = 12\<rparr>, xor_key = 0\<rparr>))"
    by code_simp
  from name_block_without_object [OF h1 h2 h3, where descumm = "\<lambda>bytes. (0, [], [])" and fuel = 0] h4
  have "processBlock (\<lambda>bytes. (0, [], [])) (Suc 0) (Processor_init \<lparr>stream = \<lparr>content = ''OBNA'' @ [CHR 0x00, CHR 0x00, CHR 0x00, CHR 0x0C] @ ''Foo'' @ [CHR 0x00], position = 0\<rparr>, xor_key = 0\<rparr>)
     = (case readASCIIZ \<lparr>stream = \<lparr>content = ''OBNA'' @ [CHR 0x00, CHR 0x00, CHR 0x00, CHR 0x0C] @ ''Foo'' @ [CHR 0x00], position = 8\<rparr>, xor_key = 0\<rparr> of
                 None \<Rightarrow> None
               | Some (Inl e) \<Rightarrow> Some (Inl e)
               | Some (Inr (nm, s3)) \<Rightarrow> Some (Inl AttributeError))"
    by blast
  then have ?c by (simp only: rd option.case sum.case prod.case)
  with h1 h2 h3 h4 inv show ?thesis by blast
qed

section \<open>The name reader\<close>

lemma ds_read_plain:
  "xor_key s = 0 \<Longrightarrow>
   ds_read s 1 = Inr (take 1 (drop (position (stream s)) (content (stream s))),
                      s\<lparr>stream := (stream s)\<lparr>position := position (stream s)
                         + length (take 1 (drop (position (stream s)) (content (stream s))))\<rparr>\<rparr>)"
  by (simp add: ds_read_def file_read_def decrypt_def Let_def)

lemma readASCIIZ_loop_returns_zero:
  assumes run: "readASCIIZ_loop s0 out0 = Some r0"
  shows "xor_key s0 = 0 \<longrightarrow>
         CHR 0x00 \<in> set (drop (position (stream s0)) (content (stream s0)))"
proof (rule readASCIIZ_loop.raw_induct
    [where P = "\<lambda>s out r. xor_key s = 0 \<longrightarrow>
                  CHR 0x00 \<in> set (drop (position (stream s)) (content (stream s)))",
     OF _ run], goal_cases)
  case (1 f s out r)
  let ?xs = "drop (position (stream s)) (content (stream s))"
  let ?s' = "s\<lparr>stream := (stream s)\<lparr>position := position (stream s) + length (take 1 ?xs)\<rparr>\<rparr>"
  show ?case
  proof
    assume k: "xor_key s = 0"
    show "CHR 0x00 \<in> set ?xs"
    proof (cases "take 1 ?xs = [CHR 0x00]")
      case True
      then have "CHR 0x00 \<in> set (take 1 ?xs)" by simp
      then show ?thesis by (rule in_set_takeD)
    next
      case False
      with 1(2) have "f ?s' (out @ take 1 ?xs) = Some r"
        by (simp only: ds_read_plain [OF k] sum.case prod.case if_False)
      from 1(1) [OF this] k
      have "CHR 0x00 \<in> set (drop (position (stream ?s')) (content (stream ?s')))"
        by simp
      then have "CHR 0x00 \<in> set (drop (length (take 1 ?xs)) ?xs)"
        by (simp add: add.commute)
      then show ?thesis by (rule in_set_dropD)
    qed
  qed
qed

lemma readASCIIZ_diverges:
  assumes "xor_key s = 0" and "CHR 0x00 \<notin> set (drop (position (stream s)) (content (stream s)))"
  shows "readASCIIZ s = None"
proof (cases "readASCIIZ s")
  case None
  then show ?thesis .
next
  case (Some r)
  then have "readASCIIZ_loop s [] = Some r" by (simp add: readASCIIZ_def)
  from readASCIIZ_loop_returns_zero [OF this] assms show ?thesis by simp
qed

lemma readASCIIZ_loop_returns:
  assumes "xor_key s = 0"
    and "drop (position (stream s)) (content (stream s)) = pre @ CHR 0x00 # rest"
    and "CHR 0x00 \<notin> set pre"
  shows "readASCIIZ_loop s out =
           Some (Inr (out @ pre, s\<lparr>stream := (stream s)\<lparr>position := position (stream s) + length pre + 1\<rparr>\<rparr>))"
  using assms
proof (induction pre arbitrary: s out)
  case Nil
  then show ?case
    by (subst readASCIIZ_loop.simps) (simp add: ds_read_plain)
next
  case (Cons c pre)
  let ?s' = "s\<lparr>stream := (stream s)\<lparr>position := position (stream s) + 1\<rparr>\<rparr>"
  have d: "drop (position (stream ?s')) (content (stream ?s')) = pre @ CHR 0x00 # rest"
  proof -
    have "drop (position (stream s) + 1) (content (stream s))
        = drop 1 (drop (position (stream s)) (content (stream s)))"
      by (simp add: add.commute)
    then show ?thesis using Cons.prems(2) by simp
  qed
  have "readASCIIZ_loop s out = readASCIIZ_loop ?s' (out @ [c])"
    using Cons.prems by (subst readASCIIZ_loop.simps) (auto simp add: ds_read_plain)
  also have "\<dots> = Some (Inr ((out @ [c]) @ pre,
      ?s'\<lparr>stream := (stream ?s')\<lparr>position := position (stream ?s') + length pre + 1\<rparr>\<rparr>))"
    using Cons.prems by (intro Cons.IH d) simp_all
  finally show ?case by simp
qed

lemma truncated_name_read:
  fixes arch :: string
  defines "arch \<equiv> ''LECF'' @ [CHR 0x00, CHR 0x00, CHR 0x00, CHR 0x1B]
                   @ ''OBCD'' @ [CHR 0x00, CHR 0x00, CHR 0x00, CHR 0x13]
                   @ ''OBNA'' @ [CHR 0x00, CHR 0x00, CHR 0x00, CHR 0x0B] @ ''Foo''"
  shows "readASCIIZ \<lparr>stream = \<lparr>content = arch, position = 24\<rparr>, xor_key = 0\<rparr> = None"
  by (rule readASCIIZ_diverges) (simp_all add: arch_def)

lemma truncated_name_block:
  fixes arch :: string
  defines "arch \<equiv> ''LECF'' @ [CHR 0x00, CHR 0x00, CHR 0x00, CHR 0x1B]
                   @ ''OBCD'' @ [CHR 0x00, CHR 0x00, CHR 0x00, CHR 0x13]
                   @ ''OBNA'' @ [CHR 0x00, CHR 0x00, CHR 0x00, CHR 0x0B] @ ''Foo''"
  shows "processBlock descumm fuel
           \<lparr>infile = \<lparr>stream = \<lparr>content = arch, position = 16\<rparr>, xor_key = 0\<rparr>,
            heap = [\<lparr>name = None, scripts = None\<rparr>], obj_dict = [(8, 0)],
            current_obj = Some 0, stdout = []\<rparr> = None"
  using truncated_name_read
  by (cases fuel) (simp_all add: arch_def stream_defs)

lemma truncated_name_loop:
  fixes arch :: string
  defines "arch \<equiv> ''LECF'' @ [CHR 0x00, CHR 0x00, CHR 0x00, CHR 0x1B]
                   @ ''OBCD'' @ [CHR 0x00, CHR 0x00, CHR 0x00, CHR 0x13]
                   @ ''OBNA'' @ [CHR 0x00, CHR 0x00, CHR 0x00, CHR 0x0B] @ ''Foo''"
  shows "processSubBlocks descumm fuel 11
           \<lparr>infile = \<lparr>stream = \<lparr>content = arch, position = 16\<rparr>, xor_key = 0\<rparr>,
            heap = [\<lparr>name = None, scripts = None\<rparr>], obj_dict = [(8, 0)],
            current_obj = Some 0, stdout = []\<rparr> = None"
proof (cases fuel)
  case 0
  then show ?thesis by simp
next
  case (Suc g)
  show ?thesis
  proof (cases g)
    case 0
    with Suc show ?thesis by simp
  next
    case (Suc h)
    with \<open>fuel = Suc g\<close> truncated_name_block [of descumm h] show ?thesis
      by (simp add: arch_def ds_tell_def file_tell_def del: processBlock.simps)
  qed
qed

lemma truncated_name_object:
  fixes arch :: string
  defines "arch \<equiv> ''LECF'' @ [CHR 0x00, CHR 0x00, CHR 0x00, CHR 0x1B]
                   @ ''OBCD'' @ [CHR 0x00, CHR 0x00, CHR 0x00, CHR 0x13]
                   @ ''OBNA'' @ [CHR 0x00, CHR 0x00, CHR 0x00, CHR 0x0B] @ ''Foo''"
  shows "processBlock descumm fuel
           \<lparr>infile = \<lparr>stream = \<lparr>content = arch, position = 8\<rparr>, xor_key = 0\<rparr>,
            heap = [], obj_dict = [], current_obj = None, stdout = []\<rparr> = None"
proof (cases fuel)
  case 0
  then show ?thesis by simp
next
  case (Suc g)
  with truncated_name_loop [of descumm g] show ?thesis
    by (simp add: arch_def stream_defs del: processSubBlocks.simps)
qed

lemma truncated_name_root:
  fixes arch :: string
  defines "arch \<equiv> ''LECF'' @ [CHR 0x00, CHR 0x00, CHR 0x00, CHR 0x1B]
                   @ ''OBCD'' @ [CHR 0x00, CHR 0x00, CHR 0x00, CHR 0x13]
                   @ ''OBNA'' @ [CHR 0x00, CHR 0x00, CHR 0x00, CHR 0x0B] @ ''Foo''"
  shows "processSubBlocks descumm fuel 19
           \<lparr>infile = \<lparr>stream = \<lparr>content = arch, position = 8\<rparr>, xor_key = 0\<rparr>,
            heap = [], obj_dict = [], current_obj = None, stdout = []\<rparr> = None"
proof (cases fuel)
  case 0
  then show ?thesis by simp
next
  case (Suc g)
  show ?thesis
  proof (cases g)
    case 0
    with Suc show ?thesis by simp
  next
    case (Suc h)
    with \<open>fuel = Suc g\<close> truncated_name_object [of descumm h] show ?thesis
      by (simp add: arch_def ds_tell_def file_tell_def del: processBlock.simps)
  qed
qed

lemma truncated_name_main:
  "main_body descumm fuel
     (''LECF'' @ [CHR 0x00, CHR 0x00, CHR 0x00, CHR 0x1B]
      @ ''OBCD'' @ [CHR 0x00, CHR 0x00, CHR 0x00, CHR 0x13]
      @ ''OBNA'' @ [CHR 0x00, CHR 0x00, CHR 0x00, CHR 0x0B] @ ''Foo'') = None"
proof (cases fuel)
  case 0
  then show ?thesis
    by (simp add: main_body_def main_open_Cons process_def Processor_init_def ord_def char_of_eq_iff)
next
  case (Suc g)
  with truncated_name_root [of descumm g] show ?thesis
    by (simp add: main_body_def main_open_Cons process_def Processor_init_def char_of_eq_iff
        stream_defs Suc4_eq del: processSubBlocks.simps)
qed

text \<open>
  Claim C5, at a failing input. With a zero byte ahead the reader returns the bytes
  before it and leaves the stream just after it. With none, \<open>read(1)\<close> returns the
  empty string at the end of the file, which is not \<open>'\0'\<close>, and the loop goes
  on: the reader never returns and raises nothing. So it is for the archive whose
  name block \<open>OBNA\<close> is cut off before the zero byte: the run does not return,
  whatever the fuel.
\<close>

theorem name_reader_loops_on_unterminated_name:
  "readASCIIZ \<lparr>stream = \<lparr>content = ''Foo'' @ [CHR 0x00] @ ''bar'', position = 0\<rparr>, xor_key = 0\<rparr>
     = Some (Inr (''Foo'', \<lparr>stream = \<lparr>content = ''Foo'' @ [CHR 0x00] @ ''bar'', position = 4\<rparr>,
                           xor_key = 0\<rparr>))
   \<and> readASCIIZ \<lparr>stream = \<lparr>content = ''Foo'', position = 0\<rparr>, xor_key = 0\<rparr> = None
   \<and> main_body descumm fuel
        (''LECF'' @ [CHR 0x00, CHR 0x00, CHR 0x00, CHR 0x1B]
         @ ''OBCD'' @ [CHR 0x00, CHR 0x00, CHR 0x00, CHR 0x13]
         @ ''OBNA'' @ [CHR 0x00, CHR 0x00, CHR 0x00, CHR 0x0B] @ ''Foo'') = None"
proof (intro conjI)
  show "readASCIIZ \<lparr>stream = \<lparr>content = ''Foo'' @ [CHR 0x00] @ ''bar'', position = 0\<rparr>, xor_key = 0\<rparr>
     = Some (Inr (''Foo'', \<lparr>stream = \<lparr>content = ''Foo'' @ [CHR 0x00] @ ''bar'', position = 4\<rparr>,
                           xor_key = 0\<rparr>))"
    using readASCIIZ_loop_returns [of "\<lparr>stream = \<lparr>content = ''Foo'' @ [CHR 0x00] @ ''bar'', position = 0\<rparr>, xor_key = 0\<rparr>" "''Foo''" "''bar''" "[]"]
    by (simp add: readASCIIZ_def)
next
  show "readASCIIZ \<lparr>stream = \<lparr>content = ''Foo'', position = 0\<rparr>, xor_key = 0\<rparr> = None"
    by (rule readASCIIZ_diverges) simp_all
next
  show "main_body descumm fuel
        (''LECF'' @ [CHR 0x00, CHR 0x00, CHR 0x00, CHR 0x1B]
         @ ''OBCD'' @ [CHR 0x00, CHR 0x00, CHR 0x00, CHR 0x13]
         @ ''OBNA'' @ [CHR 0x00, CHR 0x00, CHR 0x00, CHR 0x0B] @ ''Foo'') = None"
    by (rule truncated_name_main)
qed

section \<open>The unescaper\<close>

lemma hex_value_facts:
  assumes "hex_value c = Some v"
  shows "\<not> isspace c" "c \<noteq> CHR ''+''" "c \<noteq> CHR ''-''" "v < 16" "is_hex c"
  using assms
  by (auto simp: hex_value_def isspace_def is_hex_def Let_def split: if_splits)

lemma py_int16_two_hex:
  assumes "hex_value h1 = Some v1" and "hex_value h2 = Some v2"
  shows "py_int16 [h1, h2] = Inr (int (16 * v1 + v2))"
  using assms hex_value_facts [OF assms(1)] hex_value_facts [OF assms(2)]
  by (simp add: py_int16_def Let_def)

lemma unescape_loop_shift:
  "unescape_loop (pre @ s) (length pre + p) (acc @ out)
     = map_sum id ((@) acc) (unescape_loop s p out)"
proof (induction s p out arbitrary: acc rule: unescape_loop.induct)
  case (1 s p out)
  have nth: "\<And>i. (pre @ s) ! (length pre + i) = s ! i"
    by (simp add: nth_append)
  have drp: "\<And>i. drop (length pre + i) (pre @ s) = drop i s"
    by simp
  show ?case
  proof (cases "p < length s")
    case False
    then show ?thesis
      by (simp add: unescape_loop.simps [of "pre @ s"] unescape_loop.simps [of s])
  next
    case inb: True
    show ?thesis
    proof (cases "s ! p = backslash")
      case False
      with inb "1.IH"(1) [of "s ! p" acc] show ?thesis
        by (simp add: unescape_loop.simps [of "pre @ s" "length pre + p"]
            unescape_loop.simps [of s p] nth add.assoc)
    next
      case bs: True
      show ?thesis
      proof (cases "p + 1 < length s")
        case False
        with inb bs show ?thesis
          by (simp add: unescape_loop.simps [of "pre @ s" "length pre + p"]
            unescape_loop.simps [of s p] nth)
      next
        case inb1: True
        have drp2: "drop (Suc (Suc (length pre + p))) (pre @ s) = drop (Suc (Suc p)) s"
          using drp [of "Suc (Suc p)"] by simp
        show ?thesis
        proof (cases "s ! (p + 1) = CHR ''x''")
          case x: True
          show ?thesis
          proof (cases "py_int16 (take 2 (drop (p + 1 + 1) s))")
            case (Inl e)
            with inb bs inb1 x show ?thesis
              using nth [of p] nth [of "p + 1"]
              by (simp add: unescape_loop.simps [of "pre @ s" "length pre + p"]
                  unescape_loop.simps [of s p] drp2)
          next
            case (Inr v)
            show ?thesis
            proof (cases "chr v")
              case (Inl e)
              with inb bs inb1 x Inr show ?thesis
                using nth [of p] nth [of "p + 1"]
                by (simp add: unescape_loop.simps [of "pre @ s" "length pre + p"]
                    unescape_loop.simps [of s p] drp2)
            next
              case c: (Inr c)
              from inb bs inb1 x Inr c
              have IH: "unescape_loop (pre @ s) (length pre + (p + 1 + 3)) (acc @ (out @ [c]))
                  = map_sum id ((@) acc) (unescape_loop s (p + 1 + 3) (out @ [c]))"
                by (intro "1.IH"(2)) simp_all
              have L: "unescape_loop (pre @ s) (length pre + p) (acc @ out)
                  = unescape_loop (pre @ s) (length pre + (p + 1 + 3)) (acc @ (out @ [c]))"
                using inb bs inb1 x Inr c nth [of p] nth [of "p + 1"]
                by (simp add: unescape_loop.simps [of "pre @ s" "length pre + p"] drp2 add.left_commute)
              have R: "unescape_loop s p out = unescape_loop s (p + 1 + 3) (out @ [c])"
                using inb bs inb1 x Inr c
                by (simp add: unescape_loop.simps [of s p])
              show ?thesis by (simp only: L R IH)
            qed
          qed
        next
          case nx: False
          show ?thesis
          proof (cases "s ! (p + 1) = backslash")
            case True
            from inb bs inb1 nx True
            have IH: "unescape_loop (pre @ s) (length pre + (p + 1 + 1)) (acc @ (out @ [backslash]))
                  = map_sum id ((@) acc) (unescape_loop s (p + 1 + 1) (out @ [backslash]))"
              by (intro "1.IH"(3)) simp_all
            have L: "unescape_loop (pre @ s) (length pre + p) (acc @ out)
                = unescape_loop (pre @ s) (length pre + (p + 1 + 1)) (acc @ (out @ [backslash]))"
              using inb bs inb1 nx True nth [of p] nth [of "p + 1"]
              by (simp add: unescape_loop.simps [of "pre @ s" "length pre + p"] add.left_commute)
            have R: "unescape_loop s p out = unescape_loop s (p + 1 + 1) (out @ [backslash])"
              using inb bs inb1 nx True
              by (simp add: unescape_loop.simps [of s p])
            show ?thesis by (simp only: L R IH)
          next
            case False
            with inb bs inb1 nx show ?thesis
              using nth [of p] nth [of "p + 1"]
              by (simp add: unescape_loop.simps [of "pre @ s" "length pre + p"]
                  unescape_loop.simps [of s p])
          qed
        qed
      qed
    qed
  qed
qed

lemma unescape_loop_prefix:
  "unescape_loop (pre @ s) (length pre) acc = map_sum id ((@) acc) (unescape s)"
  using unescape_loop_shift [of pre s 0 acc "[]"] by (simp add: unescape_def)

lemma append_single: "(@) [c] = (#) c"
  by (simp add: fun_eq_iff)

lemma unescape_Nil: "unescape [] = Inr []"
  by (simp add: unescape_def unescape_loop.simps)

lemma unescape_plain:
  assumes "c \<noteq> backslash"
  shows "unescape (c # s) = map_sum id ((#) c) (unescape s)"
proof -
  have "unescape (c # s) = unescape_loop ([c] @ s) (length [c]) [c]"
    using assms by (simp add: unescape_def unescape_loop.simps [of "c # s" 0])
  also have "\<dots> = map_sum id ((@) [c]) (unescape s)"
    by (rule unescape_loop_prefix)
  finally show ?thesis by (simp add: append_single)
qed

lemma unescape_backslash:
  "unescape (backslash # backslash # s) = map_sum id ((#) backslash) (unescape s)"
proof -
  have "backslash \<noteq> CHR ''x''" by (simp add: backslash_def)
  then have "unescape (backslash # backslash # s)
      = unescape_loop ([backslash, backslash] @ s) (length [backslash, backslash]) [backslash]"
    by (simp add: unescape_def unescape_loop.simps [of "backslash # backslash # s" 0])
  also have "\<dots> = map_sum id ((@) [backslash]) (unescape s)"
    by (rule unescape_loop_prefix)
  finally show ?thesis by (simp add: append_single)
qed

lemma unescape_hex:
  assumes "hex_value h1 = Some v1" and "hex_value h2 = Some v2"
  shows "unescape (backslash # CHR ''x'' # h1 # h2 # s)
           = map_sum id ((#) (char_of (16 * v1 + v2))) (unescape s)"
proof -
  have v: "v1 < 16" "v2 < 16"
    using hex_value_facts(4) [OF assms(1)] hex_value_facts(4) [OF assms(2)] .
  then have r: "0 \<le> int (16 * v1 + v2) \<and> int (16 * v1 + v2) < 256"
    by simp
  have c: "chr (int (16 * v1 + v2)) = Inr (char_of (16 * v1 + v2))"
    unfolding chr_def by (simp only: r if_True char_of_nat simp_thms)
  have "unescape (backslash # CHR ''x'' # h1 # h2 # s)
      = unescape_loop ([backslash, CHR ''x'', h1, h2] @ s) (length [backslash, CHR ''x'', h1, h2])
          [char_of (16 * v1 + v2)]"
    using py_int16_two_hex [OF assms] c
    by (simp add: unescape_def unescape_loop.simps [of "backslash # CHR ''x'' # h1 # h2 # s" 0]
        Suc4_eq del: of_nat_add of_nat_mult)
  also have "\<dots> = map_sum id ((@) [char_of (16 * v1 + v2)]) (unescape s)"
    by (rule unescape_loop_prefix)
  finally show ?thesis by (simp add: append_single)
qed

lemma unescape_other:
  assumes "c \<noteq> CHR ''x''" and "c \<noteq> backslash"
  shows "unescape (backslash # c # s) = Inl (WTFError (''Unexpected escape code: '' @ [c]))"
  using assms by (simp add: unescape_def unescape_loop.simps [of "backslash # c # s" 0])

lemma unescape_trailing: "unescape [backslash] = Inl IndexError"
  by (simp add: unescape_def unescape_loop.simps [of "[backslash]" 0])

lemma unescape_bad_hex:
  assumes "py_int16 (take 2 s) = Inl e"
  shows "unescape (backslash # CHR ''x'' # s) = Inl e"
  using assms by (simp add: unescape_def unescape_loop.simps [of "backslash # CHR ''x'' # s" 0])

text \<open>
  Claim C3, as stated, fails. After \<open>\x\<close> the next two characters at most go to
  \<open>int(..., 16)\<close>, which accepts one digit at the end of the payload and a digit
  with a white space: \<open>\x4\<close> decodes to the byte 4 with no error, and in
  \<open>\x4\<close> followed by a space the space is dropped. A backslash at the end raises
  \<open>IndexError\<close> and \<open>\xzz\<close> raises \<open>ValueError\<close>, not the \<open>WTFError\<close>.
\<close>

theorem unescape_lenient_hex_unchecked_errors:
  "unescape (backslash # ''x4'') = Inr [CHR 0x04]
   \<and> unescape (backslash # ''x4 '') = Inr [CHR 0x04]
   \<and> unescape [backslash] = Inl IndexError
   \<and> unescape (backslash # ''xzz'') = Inl ValueError"
  by (intro conjI; code_simp)

text \<open>
  Claim C3, amended. For every payload the unescaper copies a character other than
  the backslash verbatim, decodes \<open>\\\<close> to one backslash and \<open>\x\<close> followed by
  two hexadecimal digits (of either case) to the byte of that value, and raises the
  \<open>WTFError\<close> on any other character after a backslash. A backslash at the end
  of the payload raises an unchecked \<open>IndexError\<close>, and \<open>\x\<close> followed by text
  that \<open>int(..., 16)\<close> rejects raises its unchecked \<open>ValueError\<close>.
\<close>

theorem unescape_equations:
  "unescape [] = Inr []
   \<and> (c \<noteq> backslash \<longrightarrow> unescape (c # s) = map_sum id ((#) c) (unescape s))
   \<and> unescape (backslash # backslash # s) = map_sum id ((#) backslash) (unescape s)
   \<and> (hex_value h1 = Some v1 \<and> hex_value h2 = Some v2 \<longrightarrow>
        unescape (backslash # CHR ''x'' # h1 # h2 # s)
          = map_sum id ((#) (char_of (16 * v1 + v2))) (unescape s))
   \<and> (d \<noteq> CHR ''x'' \<and> d \<noteq> backslash \<longrightarrow>
        unescape (backslash # d # s) = Inl (WTFError (''Unexpected escape code: '' @ [d])))
   \<and> unescape [backslash] = Inl IndexError
   \<and> (py_int16 (take 2 s) = Inl e \<longrightarrow> unescape (backslash # CHR ''x'' # s) = Inl e)"
  using unescape_Nil unescape_plain [of c s] unescape_backslash [of s]
    unescape_hex [of h1 v1 h2 v2 s] unescape_other [of d s] unescape_trailing
    unescape_bad_hex [of s e]
  by blast

theorem unescape_equations_witness:
  "CHR ''H'' \<noteq> backslash
   \<and> unescape (CHR ''H'' # ''zz'') = Inr ''Hzz''
   \<and> hex_value (CHR ''4'') = Some 4 \<and> hex_value (CHR ''a'') = Some 10
   \<and> unescape (backslash # ''x4azz'') = Inr ''Jzz''
   \<and> CHR ''n'' \<noteq> CHR ''x'' \<and> CHR ''n'' \<noteq> backslash
   \<and> unescape (backslash # ''nzz'') = Inl (WTFError ''Unexpected escape code: n'')
   \<and> py_int16 (take 2 ''zz'') = Inl ValueError
   \<and> unescape (backslash # ''xzz'') = Inl ValueError"
proof -
  have rest: "unescape ''zz'' = Inr ''zz''" by code_simp
  have h: "hex_value (CHR ''4'') = Some 4" "hex_value (CHR ''a'') = Some 10"
    by (simp_all add: hex_value_def)
  have bad: "py_int16 (take 2 ''zz'') = Inl ValueError" by code_simp
  have ne: "CHR ''H'' \<noteq> backslash" "CHR ''n'' \<noteq> CHR ''x''" "CHR ''n'' \<noteq> backslash"
    by (simp_all add: backslash_def)
  have j: "char_of (16 * 4 + 10 :: nat) = CHR ''J''"
    by (simp add: char_of_eq_iff)
  from unescape_equations [where c = "CHR ''H''" and s = "''zz''" and ?h1.0 = "CHR ''4''"
      and ?v1.0 = 4 and ?h2.0 = "CHR ''a''" and ?v2.0 = 10 and d = "CHR ''n''" and e = ValueError]
  show ?thesis
    using rest h bad ne j by simp
qed

end
